theory Spec2Isabelle
  imports Main
begin

section \<open>Python text primitives used by the scraper\<close>

text \<open>
  Python \<^verbatim>\<open>str\<close> values are modelled as \<^typ>\<open>string\<close>, one \<^typ>\<open>char\<close> per code point
  (code points above 255 are outside the model). The functions of this section are the
  built-ins and \<^verbatim>\<open>posixpath\<close> functions that \<^verbatim>\<open>scrap_repo.py\<close> and \<^verbatim>\<open>support.py\<close>
  call; path handling is the POSIX one (separator \<^verbatim>\<open>/\<close>).
\<close>

definition is_space :: "char \<Rightarrow> bool" where
  \<comment> \<open>\<^verbatim>\<open>str.isspace\<close> on one code point below 256: TAB, LF, VT, FF, CR, FS, GS, RS, US,
      SPACE, NEL, NBSP.\<close>
  "is_space c =
     (let n = (of_char c :: nat)
      in (9 \<le> n \<and> n \<le> 13) \<or> (28 \<le> n \<and> n \<le> 32) \<or> n = 133 \<or> n = 160)"

definition lstrip :: "string \<Rightarrow> string" where
  "lstrip s = dropWhile is_space s"

definition rstrip :: "string \<Rightarrow> string" where
  "rstrip s = rev (dropWhile is_space (rev s))"

definition strip :: "string \<Rightarrow> string" where
  \<comment> \<open>\<^verbatim>\<open>s.strip()\<close>\<close>
  "strip s = rstrip (lstrip s)"

definition rstrip_char :: "char \<Rightarrow> string \<Rightarrow> string" where
  \<comment> \<open>\<^verbatim>\<open>s.rstrip(c)\<close> for a one-character argument\<close>
  "rstrip_char c s = rev (dropWhile (\<lambda>x. x = c) (rev s))"

fun startswith :: "string \<Rightarrow> string \<Rightarrow> bool" where
  "startswith s [] = True"
| "startswith [] (p # ps) = False"
| "startswith (c # cs) (p # ps) = (c = p \<and> startswith cs ps)"

definition endswith :: "string \<Rightarrow> string \<Rightarrow> bool" where
  "endswith s p = startswith (rev s) (rev p)"

fun str_contains :: "string \<Rightarrow> string \<Rightarrow> bool" where
  \<comment> \<open>\<^verbatim>\<open>sub in s\<close> on two strings\<close>
  "str_contains sub [] = (sub = [])"
| "str_contains sub (c # cs) = (startswith (c # cs) sub \<or> str_contains sub cs)"

fun rfind :: "string \<Rightarrow> char \<Rightarrow> int" where
  \<comment> \<open>\<^verbatim>\<open>s.rfind(c)\<close>: the highest index of \<open>c\<close>, or \<open>-1\<close>\<close>
  "rfind [] c = - 1"
| "rfind (x # xs) c =
     (let r = rfind xs c
      in if 0 \<le> r then r + 1 else if x = c then 0 else - 1)"

fun str_nat :: "nat \<Rightarrow> string" where
  "str_nat n =
     (if n < 10 then [char_of (48 + n)]
      else str_nat (n div 10) @ [char_of (48 + n mod 10)])"

declare str_nat.simps [simp del]

definition str_int :: "int \<Rightarrow> string" where
  \<comment> \<open>\<^verbatim>\<open>str(i)\<close>, as the f-strings format an index\<close>
  "str_int i = (if i < 0 then CHR ''-'' # str_nat (nat (- i)) else str_nat (nat i))"

fun universal_newlines :: "string \<Rightarrow> string" where
  \<comment> \<open>what a text-mode file opened with the default \<^verbatim>\<open>newline=None\<close> does to the decoded
      text on reading: every CR LF pair and every other CR becomes one LF\<close>
  "universal_newlines [] = []"
| "universal_newlines [c] = (if c = CHR 0x0D then [CHR 0x0A] else [c])"
| "universal_newlines (c # d # cs) =
     (if c = CHR 0x0D \<and> d = CHR 0x0A then CHR 0x0A # universal_newlines cs
      else if c = CHR 0x0D then CHR 0x0A # universal_newlines (d # cs)
      else c # universal_newlines (d # cs))"

subsection \<open>posixpath\<close>

definition os_path_join :: "string \<Rightarrow> string \<Rightarrow> string" where
  \<comment> \<open>\<^verbatim>\<open>os.path.join(a, b)\<close>\<close>
  "os_path_join a b =
     (if startswith b ''/'' \<or> a = [] then b
      else if endswith a ''/'' then a @ b
      else a @ ''/'' @ b)"

definition os_path_dirname :: "string \<Rightarrow> string" where
  \<comment> \<open>\<^verbatim>\<open>os.path.dirname(p)\<close>\<close>
  "os_path_dirname p =
     (let i = rfind p CHR ''/'' + 1;
          head = take (nat i) p
      in if head \<noteq> [] \<and> head \<noteq> replicate (length head) CHR ''/''
         then rstrip_char CHR ''/'' head
         else head)"

function skip_leading_dots :: "string \<Rightarrow> int \<Rightarrow> int \<Rightarrow> string \<times> string" where
  \<comment> \<open>the \<^verbatim>\<open>while filenameIndex < dotIndex\<close> loop of \<^verbatim>\<open>genericpath._splitext\<close>\<close>
  "skip_leading_dots p filenameIndex dotIndex =
     (if filenameIndex < dotIndex then
        if take 1 (drop (nat filenameIndex) p) \<noteq> ''.''
        then (take (nat dotIndex) p, drop (nat dotIndex) p)
        else skip_leading_dots p (filenameIndex + 1) dotIndex
      else (p, []))"
  by pat_completeness auto
termination
  by (relation "measure (\<lambda>(p, filenameIndex, dotIndex). nat (dotIndex - filenameIndex))") auto

declare skip_leading_dots.simps [simp del]

definition os_path_splitext :: "string \<Rightarrow> string \<times> string" where
  \<comment> \<open>\<^verbatim>\<open>os.path.splitext(p)\<close>\<close>
  "os_path_splitext p =
     (let sepIndex = rfind p CHR ''/'';
          dotIndex = rfind p CHR ''.''
      in if dotIndex > sepIndex then skip_leading_dots p (sepIndex + 1) dotIndex
         else (p, []))"

section \<open>The filesystem the scraper reads\<close>

text \<open>
  What \<^verbatim>\<open>os.walk\<close> sees under a directory: the names of its non-directory entries and
  its sub-directories, both in \<^verbatim>\<open>scandir\<close> order. \<open>NoScan\<close> is an entry that
  \<^verbatim>\<open>os.walk\<close> does not list: a path whose \<^verbatim>\<open>scandir\<close> fails (the error is
  swallowed, \<^verbatim>\<open>onerror=None\<close>) or a symbolic link to a directory
  (\<^verbatim>\<open>followlinks=False\<close>).
\<close>

datatype dir = Dir "string list" "(string \<times> dir) list" | NoScan

datatype read_error = FileNotFoundError | PermissionError | IsADirectoryError | UnicodeDecodeError

record filesystem =
  tree_at :: "string \<Rightarrow> dir"
    \<comment> \<open>the directory tree found at a path given to \<^verbatim>\<open>os.walk\<close>\<close>
  decoded_text :: "string \<Rightarrow> read_error + string"
    \<comment> \<open>the content of the file at a path, its bytes decoded as UTF-8, or the exception
        that \<^verbatim>\<open>open\<close> or the decoder raises\<close>

definition read_text :: "filesystem \<Rightarrow> string \<Rightarrow> read_error + string" where
  \<comment> \<open>\<^verbatim>\<open>open(path, 'r', encoding='utf-8').read()\<close>: text mode translates the newlines of
      the decoded content\<close>
  "read_text fs path =
     (case decoded_text fs path of
        Inl e \<Rightarrow> Inl e
      | Inr decoded \<Rightarrow> Inr (universal_newlines decoded))"

type_synonym walk_entry = "string \<times> string list \<times> string list"

fun os_walk :: "string \<Rightarrow> dir \<Rightarrow> walk_entry list"
  and walk_subdirs :: "string \<Rightarrow> (string \<times> dir) list \<Rightarrow> walk_entry list" where
  "os_walk walk_top NoScan = []"
| "os_walk walk_top (Dir files subs) = (walk_top, map fst subs, files) # walk_subdirs walk_top subs"
| "walk_subdirs walk_top [] = []"
| "walk_subdirs walk_top ((name, d) # rest) =
     os_walk (os_path_join walk_top name) d @ walk_subdirs walk_top rest"

section \<open>support.py\<close>

fun files_loop :: "string \<Rightarrow> string list option \<Rightarrow> string list \<Rightarrow> string list \<Rightarrow> string list" where
  \<comment> \<open>\<^verbatim>\<open>for name in files\<close>; the last argument is \<^verbatim>\<open>file_path_list\<close>\<close>
  "files_loop path filetype_filter_list [] file_path_list = file_path_list"
| "files_loop path filetype_filter_list (name # names) file_path_list =
     (let file_path = os_path_join path name
      in case filetype_filter_list of
           Some flt \<Rightarrow>
             (let file_extension = snd (os_path_splitext file_path)
              in if file_extension \<in> set flt
                 then files_loop path filetype_filter_list names (file_path_list @ [file_path])
                 else files_loop path filetype_filter_list names file_path_list)
         | None \<Rightarrow> files_loop path filetype_filter_list names (file_path_list @ [file_path]))"

fun walk_loop :: "string list option \<Rightarrow> walk_entry list \<Rightarrow> string list \<Rightarrow> string list" where
  \<comment> \<open>\<^verbatim>\<open>for path, subdirs, files in os.walk(path_to_explore)\<close>\<close>
  "walk_loop filetype_filter_list [] file_path_list = file_path_list"
| "walk_loop filetype_filter_list ((path, subdirs, files) # rest) file_path_list =
     walk_loop filetype_filter_list rest (files_loop path filetype_filter_list files file_path_list)"

definition get_all_files_from_path :: "filesystem \<Rightarrow> string \<Rightarrow> string list option \<Rightarrow> string list" where
  "get_all_files_from_path fs path_to_explore filetype_filter_list =
     walk_loop filetype_filter_list (os_walk path_to_explore (tree_at fs path_to_explore)) []"

section \<open>scrap_repo.py: the class scrapper\<close>

datatype py_error =
    IndexError int nat
      \<comment> \<open>raised by \<^verbatim>\<open>check_idx\<close>; carries the index and the length that its message prints\<close>
  | ReadError read_error
  | TypeError

record scrapper =
  chunking_function :: "(string \<Rightarrow> string list) option"
  files_list :: "string list"
  chunks :: "string list"

fun ignore_loop :: "string list \<Rightarrow> string list \<Rightarrow> scrapper \<Rightarrow> scrapper" where
  \<comment> \<open>\<^verbatim>\<open>for tmp_file in tmp_files_list\<close> of \<^verbatim>\<open>update_files_list\<close>\<close>
  "ignore_loop paths_to_ignore_list [] s = s"
| "ignore_loop paths_to_ignore_list (tmp_file # rest) s =
     (let tmp_file_path = os_path_dirname tmp_file
      in if \<not> list_ex (\<lambda>path_to_ignore. str_contains path_to_ignore tmp_file_path) paths_to_ignore_list
         then ignore_loop paths_to_ignore_list rest (s\<lparr>files_list := files_list s @ [tmp_file]\<rparr>)
         else ignore_loop paths_to_ignore_list rest s)"

definition update_files_list ::
  "filesystem \<Rightarrow> scrapper \<Rightarrow> string \<Rightarrow> string list option \<Rightarrow> string list option \<Rightarrow> scrapper" where
  "update_files_list fs s path_repo file_extension_filter paths_to_ignore_list =
     (let tmp_files_list = get_all_files_from_path fs path_repo file_extension_filter;
          s1 = s\<lparr>files_list := []\<rparr>
      in case paths_to_ignore_list of
           Some ign \<Rightarrow> ignore_loop ign tmp_files_list s1
         | None \<Rightarrow> s1\<lparr>files_list := tmp_files_list\<rparr>)"

definition check_idx :: "scrapper \<Rightarrow> int \<Rightarrow> py_error + unit" where
  "check_idx s idx =
     (if idx < 0 \<or> idx \<ge> int (length (files_list s))
      then Inl (IndexError idx (length (files_list s)))
      else Inr ())"

definition get_file_content :: "filesystem \<Rightarrow> scrapper \<Rightarrow> int \<Rightarrow> py_error + string" where
  "get_file_content fs s idx =
     (case check_idx s idx of
        Inl e \<Rightarrow> Inl e
      | Inr _ \<Rightarrow>
          (let file_path = files_list s ! nat idx
           in case read_text fs file_path of
                Inl e \<Rightarrow> Inl (ReadError e)
              | Inr text \<Rightarrow> Inr (strip text)))"

definition getitem :: "filesystem \<Rightarrow> scrapper \<Rightarrow> int \<Rightarrow> py_error + string" where
  \<comment> \<open>\<^verbatim>\<open>__getitem__\<close>\<close>
  "getitem fs s idx =
     (case check_idx s idx of
        Inl e \<Rightarrow> Inl e
      | Inr _ \<Rightarrow> get_file_content fs s idx)"

definition get_chunks_from_file ::
  "filesystem \<Rightarrow> scrapper \<Rightarrow> int \<Rightarrow> py_error + string list option" where
  \<comment> \<open>the result \<open>None\<close> is Python's \<^verbatim>\<open>None\<close>: the function falls off its end\<close>
  "get_chunks_from_file fs s idx =
     (case check_idx s idx of
        Inl e \<Rightarrow> Inl e
      | Inr _ \<Rightarrow>
          (case get_file_content fs s idx of
             Inl e \<Rightarrow> Inl e
           | Inr file_content \<Rightarrow>
               (case chunking_function s of
                  Some f \<Rightarrow> Inr (Some (f file_content))
                | None \<Rightarrow> Inr None)))"

text \<open>
  \<^verbatim>\<open>create_chunk\<close> assigns to \<^verbatim>\<open>self.chunks\<close> while it runs, so its model returns the
  object as the call leaves it together with the outcome: \<open>Inl e\<close> when the exception
  \<open>e\<close> reached the caller.
\<close>

fun chunking_loop :: "filesystem \<Rightarrow> int list \<Rightarrow> scrapper \<Rightarrow> (py_error + unit) \<times> scrapper" where
  \<comment> \<open>\<^verbatim>\<open>for idx in range(len(self.files_list))\<close>, chunking branch;
      \<^verbatim>\<open>self.chunks += None\<close> raises \<^verbatim>\<open>TypeError\<close>\<close>
  "chunking_loop fs [] s = (Inr (), s)"
| "chunking_loop fs (idx # rest) s =
     (case get_chunks_from_file fs s idx of
        Inl e \<Rightarrow> (Inl e, s)
      | Inr None \<Rightarrow> (Inl TypeError, s)
      | Inr (Some file_chunks) \<Rightarrow> chunking_loop fs rest (s\<lparr>chunks := chunks s @ file_chunks\<rparr>))"

fun merging_loop :: "filesystem \<Rightarrow> scrapper \<Rightarrow> int list \<Rightarrow> string \<Rightarrow> py_error + string" where
  \<comment> \<open>\<^verbatim>\<open>for idx in range(len(self.files_list))\<close>, merging branch; the last argument is
      \<^verbatim>\<open>merged_content\<close>\<close>
  "merging_loop fs s [] merged_content = Inr merged_content"
| "merging_loop fs s (idx # rest) merged_content =
     (case get_file_content fs s idx of
        Inl e \<Rightarrow> Inl e
      | Inr file_content \<Rightarrow>
          merging_loop fs s rest (merged_content @ file_content @ [CHR 0x0A, CHR 0x0A]))"

definition range_len :: "'a list \<Rightarrow> int list" where
  \<comment> \<open>\<^verbatim>\<open>range(len(xs))\<close>\<close>
  "range_len xs = map int [0..<length xs]"

definition create_chunk :: "filesystem \<Rightarrow> scrapper \<Rightarrow> (py_error + unit) \<times> scrapper" where
  "create_chunk fs s =
     (let s0 = s\<lparr>chunks := []\<rparr>
      in case chunking_function s0 of
           Some f \<Rightarrow> chunking_loop fs (range_len (files_list s0)) s0
         | None \<Rightarrow>
             (case merging_loop fs s0 (range_len (files_list s0)) [] of
                Inl e \<Rightarrow> (Inl e, s0)
              | Inr merged_content \<Rightarrow> (Inr (), s0\<lparr>chunks := chunks s0 @ [merged_content]\<rparr>)))"

definition update_files_list_and_create_chunks ::
  "filesystem \<Rightarrow> scrapper \<Rightarrow> string \<Rightarrow> string list option \<Rightarrow> string list option
     \<Rightarrow> (py_error + unit) \<times> scrapper" where
  "update_files_list_and_create_chunks fs s path_repo file_extension_filter paths_to_ignore_list =
     create_chunk fs (update_files_list fs s path_repo file_extension_filter paths_to_ignore_list)"

definition init ::
  "filesystem \<Rightarrow> string \<Rightarrow> string list option \<Rightarrow> string list option
     \<Rightarrow> (string \<Rightarrow> string list) option \<Rightarrow> (py_error + unit) \<times> scrapper" where
  \<comment> \<open>\<^verbatim>\<open>__init__\<close>: the two list attributes do not exist before the first update, which
      assigns both before reading either\<close>
  "init fs path_repo file_extension_filter paths_to_ignore_list chunking_fn =
     update_files_list_and_create_chunks fs
       \<lparr>chunking_function = chunking_fn, files_list = [], chunks = []\<rparr>
       path_repo file_extension_filter paths_to_ignore_list"

definition banner :: string where
  "banner = replicate 66 CHR ''%''"

definition print_file ::
  "filesystem \<Rightarrow> scrapper \<Rightarrow> int \<Rightarrow> bool \<Rightarrow> (py_error + unit) \<times> string list" where
  \<comment> \<open>the second component lists the arguments of the \<^verbatim>\<open>print\<close> calls made, in order\<close>
  "print_file fs s idx extended_output =
     (if extended_output then
        (case check_idx s idx of
           Inl e \<Rightarrow> (Inl e, [])
         | Inr _ \<Rightarrow>
             (let file_path = files_list s ! nat idx;
                  out = [CHR 0x0A # banner,
                         ''File '' @ str_int idx @ '': '' @ file_path @ [CHR 0x0A]]
              in case get_file_content fs s idx of
                   Inl e \<Rightarrow> (Inl e, out)
                 | Inr file_content \<Rightarrow> (Inr (), out @ [file_content, banner @ [CHR 0x0A]])))
      else
        (case get_file_content fs s idx of
           Inl e \<Rightarrow> (Inl e, [])
         | Inr file_content \<Rightarrow> (Inr (), [file_content])))"

section \<open>The extension of a file name\<close>

text \<open>
  Two readings of ``the extension of a file name'', to compare with what
  \<^verbatim>\<open>os.path.splitext\<close> computes. \<open>from_last c s\<close> is the part of \<open>s\<close> that starts at
  its last \<open>c\<close>, empty when \<open>c\<close> does not occur. \<open>spec_extension\<close> follows the words
  of the specification: the part of the name from its last dot on, empty for a name
  without a dot. \<open>name_extension\<close> does not count the dots a name begins with: the
  part from the last dot on when a dot occurs after the first character that is not a
  dot, empty otherwise.
\<close>

fun from_last :: "char \<Rightarrow> string \<Rightarrow> string" where
  "from_last c [] = []"
| "from_last c (x # xs) = (if c \<in> set xs then from_last c xs else if x = c then x # xs else [])"

definition spec_extension :: "string \<Rightarrow> string" where
  "spec_extension name = from_last CHR ''.'' name"

definition name_extension :: "string \<Rightarrow> string" where
  "name_extension name =
     (if CHR ''.'' \<in> set (dropWhile (\<lambda>c. c = CHR ''.'') name)
      then from_last CHR ''.'' name else [])"

section \<open>Sample inputs\<close>

text \<open>
  A chunking capability for the examples: Python's \<^verbatim>\<open>str.split()\<close>, which splits at
  runs of whitespace and returns no empty fragment.
\<close>

fun split_words :: "string \<Rightarrow> string \<Rightarrow> string list" where
  "split_words [] cur = (if cur = [] then [] else [cur])"
| "split_words (c # cs) cur =
     (if is_space c then (if cur = [] then split_words cs [] else cur # split_words cs [])
      else split_words cs (cur @ [c]))"

definition whitespace_split :: "string \<Rightarrow> string list" where
  "whitespace_split s = split_words s []"

definition example_disk :: filesystem where
  "example_disk =
     \<lparr>tree_at = (\<lambda>p. NoScan),
      decoded_text = (\<lambda>p. if p = ''f1'' then Inr ('' A'' @ [CHR 0x0A])
                            else if p = ''f2'' then Inr ''B''
                            else if p = ''g1'' then Inr ''x y''
                            else if p = ''g2'' then Inr (''z'' @ [CHR 0x0A])
                            else if p = ''w1'' then Inr [CHR ''a'', CHR 0x0D, CHR 0x0A, CHR ''b'']
                            else Inl FileNotFoundError)\<rparr>"

definition example_scrapper :: scrapper where
  "example_scrapper =
     \<lparr>chunking_function = None, files_list = [''f1'', ''f2''], chunks = [''old'']\<rparr>"

definition example_chunking_scrapper :: scrapper where
  "example_chunking_scrapper =
     \<lparr>chunking_function = Some whitespace_split, files_list = [''g1'', ''g2''],
      chunks = [''old'']\<rparr>"

definition example_failing_scrapper :: scrapper where
  "example_failing_scrapper =
     \<lparr>chunking_function = Some whitespace_split, files_list = [''g1'', ''gone'', ''g2''],
      chunks = [''old'']\<rparr>"

definition example_tree :: dir where
  "example_tree =
     Dir [''a.md'', ''b.txt'', ''c.MD'', ''.md'']
       [(''data'', Dir [''x.txt''] []), (''metadata'', Dir [''y.txt''] [])]"

definition example_fs :: filesystem where
  "example_fs =
     \<lparr>tree_at = (\<lambda>p. if p = ''root'' then example_tree else NoScan),
      decoded_text = (\<lambda>p. if p = ''root/a.md'' then Inr ('' A'' @ [CHR 0x0A])
                            else if p = ''root/b.txt'' then Inr ''B''
                            else if p = ''root/c.MD'' then Inr ''c''
                            else if p = ''root/.md'' then Inr ''d''
                            else if p = ''root/data/x.txt'' then Inr ''x y''
                            else if p = ''root/metadata/y.txt'' then Inr (''z'' @ [CHR 0x0A])
                            else Inl FileNotFoundError)\<rparr>"

section \<open>Index validation and file content\<close>

lemma check_idx_invalid:
  "idx < 0 \<or> int (length (files_list s)) \<le> idx \<Longrightarrow>
     check_idx s idx = Inl (IndexError idx (length (files_list s)))"
  by (simp add: check_idx_def)

lemma check_idx_valid:
  "0 \<le> idx \<Longrightarrow> idx < int (length (files_list s)) \<Longrightarrow> check_idx s idx = Inr ()"
  by (simp add: check_idx_def)

lemma get_file_content_valid:
  "0 \<le> idx \<Longrightarrow> idx < int (length (files_list s)) \<Longrightarrow>
     get_file_content fs s idx =
       (case read_text fs (files_list s ! nat idx) of
          Inl e \<Rightarrow> Inl (ReadError e) | Inr text \<Rightarrow> Inr (strip text))"
  by (simp add: get_file_content_def check_idx_valid)

lemma lstrip_decomp: "s = takeWhile is_space s @ lstrip s"
  by (simp add: lstrip_def)

lemma rstrip_decomp: "s = rstrip s @ rev (takeWhile is_space (rev s))"
proof -
  have "rev (takeWhile is_space (rev s) @ dropWhile is_space (rev s)) = s"
    by (simp only: takeWhile_dropWhile_id rev_rev_ident)
  then show ?thesis by (simp only: rstrip_def rev_append)
qed

lemma strip_decomp:
  "s = takeWhile is_space s @ strip s @ rev (takeWhile is_space (rev (lstrip s)))"
proof -
  have "lstrip s = strip s @ rev (takeWhile is_space (rev (lstrip s)))"
    unfolding strip_def by (rule rstrip_decomp)
  with lstrip_decomp [of s] show ?thesis by simp
qed

lemma strip_surrounded_by_spaces:
  "\<exists>l r. s = l @ strip s @ r \<and> list_all is_space l \<and> list_all is_space r"
proof -
  let ?l = "takeWhile is_space s"
  let ?r = "rev (takeWhile is_space (rev (lstrip s)))"
  have "list_all is_space ?l"
    by (simp add: list_all_iff) (metis set_takeWhileD)
  moreover have "list_all is_space ?r"
    by (simp add: list_all_iff) (metis set_takeWhileD)
  ultimately show ?thesis using strip_decomp [of s] by blast
qed

lemma rstrip_last: "rstrip s \<noteq> [] \<Longrightarrow> \<not> is_space (last (rstrip s))"
  by (simp add: rstrip_def last_rev hd_dropWhile)

lemma rstrip_hd: "rstrip s \<noteq> [] \<Longrightarrow> hd (rstrip s) = hd s"
  by (metis rstrip_decomp hd_append2)

lemma lstrip_hd: "lstrip s \<noteq> [] \<Longrightarrow> \<not> is_space (hd (lstrip s))"
  by (simp add: lstrip_def hd_dropWhile)

lemma strip_ends:
  assumes "strip s \<noteq> []"
  shows "\<not> is_space (hd (strip s))" and "\<not> is_space (last (strip s))"
proof -
  from assms have ne: "lstrip s \<noteq> []"
    by (auto simp: strip_def rstrip_def)
  from assms have "hd (strip s) = hd (lstrip s)"
    unfolding strip_def by (rule rstrip_hd)
  with lstrip_hd [OF ne] show "\<not> is_space (hd (strip s))" by simp
  from assms show "\<not> is_space (last (strip s))"
    unfolding strip_def by (rule rstrip_last)
qed

text \<open>
  Claim C3. For every integer \<open>idx\<close> outside \<open>[0, len(files_list))\<close>, negative ones
  included, each operation that takes an index (\<^verbatim>\<open>get_file_content\<close>,
  \<^verbatim>\<open>get_chunks_from_file\<close>, \<^verbatim>\<open>__getitem__\<close>, and \<^verbatim>\<open>print_file\<close> in both of its modes)
  raises the \<^verbatim>\<open>IndexError\<close> of \<^verbatim>\<open>check_idx\<close> for that very index: the index is not
  clamped, replaced by a default or counted from the end, and nothing is printed.
\<close>

theorem index_out_of_range_raises:
  assumes "idx < 0 \<or> int (length (files_list s)) \<le> idx"
  shows "get_file_content fs s idx = Inl (IndexError idx (length (files_list s)))
       \<and> get_chunks_from_file fs s idx = Inl (IndexError idx (length (files_list s)))
       \<and> getitem fs s idx = Inl (IndexError idx (length (files_list s)))
       \<and> print_file fs s idx extended_output = (Inl (IndexError idx (length (files_list s))), [])"
  using check_idx_invalid [OF assms]
  by (simp add: get_file_content_def get_chunks_from_file_def getitem_def print_file_def)

theorem index_out_of_range_raises_witness:
  "length (files_list example_scrapper) = 2
   \<and> get_file_content example_disk example_scrapper (- 1) = Inl (IndexError (- 1) 2)
   \<and> getitem example_disk example_scrapper (- 1) = Inl (IndexError (- 1) 2)
   \<and> get_chunks_from_file example_disk example_scrapper (- 1) = Inl (IndexError (- 1) 2)
   \<and> get_file_content example_disk example_scrapper 2 = Inl (IndexError 2 2)
   \<and> getitem example_disk example_scrapper 2 = Inl (IndexError 2 2)
   \<and> get_chunks_from_file example_disk example_scrapper 2 = Inl (IndexError 2 2)"
proof -
  have len: "length (files_list example_scrapper) = 2"
    by (simp add: example_scrapper_def)
  have below: "(- 1 :: int) < 0 \<or> int (length (files_list example_scrapper)) \<le> - 1"
    by simp
  have above: "(2 :: int) < 0 \<or> int (length (files_list example_scrapper)) \<le> 2"
    by (simp add: len)
  from index_out_of_range_raises [OF below, of example_disk False]
       index_out_of_range_raises [OF above, of example_disk False] len
  show ?thesis by simp
qed

lemma universal_newlines_no_cr: "CHR 0x0D \<notin> set (universal_newlines t)"
  by (induction t rule: universal_newlines.induct) simp_all

lemma universal_newlines_id: "CHR 0x0D \<notin> set t \<Longrightarrow> universal_newlines t = t"
  by (induction t rule: universal_newlines.induct) auto

lemma read_text_decoded:
  "decoded_text fs path = Inr decoded \<Longrightarrow> read_text fs path = Inr (universal_newlines decoded)"
  by (simp add: read_text_def)

text \<open>
  Claim C7, as amended. For every valid index \<open>idx\<close> whose file can be read and decoded,
  \<^verbatim>\<open>get_file_content(idx)\<close> returns the content of the file at \<^verbatim>\<open>files_list[idx]\<close>,
  decoded as UTF-8, after the newline translation of text mode (every CR LF pair and every
  other CR becomes one LF), with leading and trailing whitespace stripped, and
  \<^verbatim>\<open>scraper[idx]\<close> returns the same value. Stripped means: the translated text is the
  result between two runs of whitespace, and the result neither starts nor ends with
  whitespace. The result holds no CR; for a content without CR it is the stripped
  decoded content itself.
\<close>

theorem get_file_content_returns_stripped_text:
  assumes "0 \<le> idx" and "idx < int (length (files_list s))"
    and "decoded_text fs (files_list s ! nat idx) = Inr decoded"
  shows "get_file_content fs s idx = Inr (strip (universal_newlines decoded))
       \<and> getitem fs s idx = Inr (strip (universal_newlines decoded))
       \<and> (\<exists>l r. universal_newlines decoded = l @ strip (universal_newlines decoded) @ r
                \<and> list_all is_space l \<and> list_all is_space r)
       \<and> (strip (universal_newlines decoded) \<noteq> [] \<longrightarrow>
            \<not> is_space (hd (strip (universal_newlines decoded)))
            \<and> \<not> is_space (last (strip (universal_newlines decoded))))
       \<and> CHR 0x0D \<notin> set (universal_newlines decoded)
       \<and> (CHR 0x0D \<notin> set decoded \<longrightarrow> get_file_content fs s idx = Inr (strip decoded))"
proof -
  let ?t = "universal_newlines decoded"
  from assms have content: "get_file_content fs s idx = Inr (strip ?t)"
    by (simp add: get_file_content_valid read_text_decoded)
  from assms(1,2) content have item: "getitem fs s idx = Inr (strip ?t)"
    by (simp add: getitem_def check_idx_valid)
  from content have same: "CHR 0x0D \<notin> set decoded \<longrightarrow> get_file_content fs s idx = Inr (strip decoded)"
    by (simp add: universal_newlines_id)
  from content item same strip_surrounded_by_spaces [of ?t] strip_ends [of ?t]
       universal_newlines_no_cr [of decoded]
  show ?thesis by blast
qed

theorem get_file_content_returns_stripped_text_witness:
  "decoded_text example_disk (files_list example_scrapper ! 0) = Inr ('' A'' @ [CHR 0x0A])
   \<and> get_file_content example_disk example_scrapper 0 = Inr ''A''
   \<and> getitem example_disk example_scrapper 0 = Inr ''A''
   \<and> decoded_text example_disk ''w1'' = Inr [CHR ''a'', CHR 0x0D, CHR 0x0A, CHR ''b'']
   \<and> get_file_content example_disk (example_scrapper\<lparr>files_list := [''w1'']\<rparr>) 0 =
       Inr [CHR ''a'', CHR 0x0A, CHR ''b'']
   \<and> getitem example_disk (example_scrapper\<lparr>files_list := [''w1'']\<rparr>) 0 =
       Inr [CHR ''a'', CHR 0x0A, CHR ''b'']"
proof -
  let ?w = "example_scrapper\<lparr>files_list := [''w1'']\<rparr>"
  have valid: "(0::int) \<le> 0" "(0::int) < int (length (files_list example_scrapper))"
    "(0::int) < int (length (files_list ?w))"
    by (simp_all add: example_scrapper_def)
  have rd: "decoded_text example_disk (files_list example_scrapper ! nat 0) =
              Inr ('' A'' @ [CHR 0x0A])"
    "decoded_text example_disk (files_list ?w ! nat 0) =
              Inr [CHR ''a'', CHR 0x0D, CHR 0x0A, CHR ''b'']"
    by (simp_all add: example_scrapper_def example_disk_def)
  have stripped: "strip [CHR '' '', CHR ''A'', CHR 0x0A] = ''A''"
    "strip [CHR ''a'', CHR 0x0A, CHR ''b''] = [CHR ''a'', CHR 0x0A, CHR ''b'']"
    by (simp_all add: strip_def lstrip_def rstrip_def is_space_def)
  from get_file_content_returns_stripped_text [OF valid(1) valid(2) rd(1)]
       get_file_content_returns_stripped_text [OF valid(1) valid(3) rd(2)] stripped rd
  show ?thesis by simp
qed

text \<open>
  Claim C7 as the specification states it (the result is the stripped content of the
  file, decoded as UTF-8) does not hold for a file with a CR LF line end: the file
  \<^verbatim>\<open>w1\<close> holds \<^verbatim>\<open>a\<close>, CR, LF, \<^verbatim>\<open>b\<close>, which stripping leaves as it is, and
  \<^verbatim>\<open>get_file_content\<close> returns \<^verbatim>\<open>a\<close>, LF, \<^verbatim>\<open>b\<close>.
\<close>

theorem get_file_content_crlf_counterexample:
  "decoded_text example_disk ''w1'' = Inr [CHR ''a'', CHR 0x0D, CHR 0x0A, CHR ''b'']
   \<and> strip [CHR ''a'', CHR 0x0D, CHR 0x0A, CHR ''b''] = [CHR ''a'', CHR 0x0D, CHR 0x0A, CHR ''b'']
   \<and> get_file_content example_disk (example_scrapper\<lparr>files_list := [''w1'']\<rparr>) 0 =
       Inr [CHR ''a'', CHR 0x0A, CHR ''b'']
   \<and> get_file_content example_disk (example_scrapper\<lparr>files_list := [''w1'']\<rparr>) 0 \<noteq>
       Inr (strip [CHR ''a'', CHR 0x0D, CHR 0x0A, CHR ''b''])"
  by (simp add: get_file_content_def check_idx_def example_scrapper_def example_disk_def
        read_text_def strip_def lstrip_def rstrip_def is_space_def)

text \<open>
  Claim C9. For every valid index \<open>idx\<close> whose file can be read,
  \<^verbatim>\<open>get_chunks_from_file(idx)\<close> returns the chunking function applied to that file's
  stripped content when a chunking function is configured, and returns \<^verbatim>\<open>None\<close>
  (no list, no exception) when none is configured.
\<close>

theorem get_chunks_from_file_result:
  assumes "0 \<le> idx" and "idx < int (length (files_list s))"
    and "read_text fs (files_list s ! nat idx) = Inr raw_text"
  shows "(\<forall>f. chunking_function s = Some f \<longrightarrow>
            get_chunks_from_file fs s idx = Inr (Some (f (strip raw_text))))
       \<and> (chunking_function s = None \<longrightarrow> get_chunks_from_file fs s idx = Inr None)"
  using assms
  by (simp add: get_chunks_from_file_def check_idx_valid get_file_content_valid)

lemma strip_examples:
  "strip [CHR '' '', CHR ''A'', CHR 0x0A] = ''A''" "strip ''B'' = ''B''"
  "strip ''x y'' = ''x y''" "strip [CHR ''z'', CHR 0x0A] = ''z''"
  by (simp_all add: strip_def lstrip_def rstrip_def is_space_def)

lemma whitespace_split_examples:
  "whitespace_split ''x y'' = [''x'', ''y'']" "whitespace_split ''z'' = [''z'']"
  "whitespace_split ''B'' = [''B'']"
  by (simp_all add: whitespace_split_def is_space_def)

theorem get_chunks_from_file_result_witness:
  "get_chunks_from_file example_disk example_chunking_scrapper 0 = Inr (Some [''x'', ''y''])
   \<and> get_chunks_from_file example_disk example_scrapper 0 = Inr None"
proof -
  have valid: "(0::int) \<le> 0" "(0::int) < int (length (files_list example_chunking_scrapper))"
    "(0::int) < int (length (files_list example_scrapper))"
    by (simp_all add: example_scrapper_def example_chunking_scrapper_def)
  have rd: "read_text example_disk (files_list example_chunking_scrapper ! nat 0) = Inr ''x y''"
    "read_text example_disk (files_list example_scrapper ! nat 0) = Inr ('' A'' @ [CHR 0x0A])"
    by (simp_all add: example_scrapper_def example_chunking_scrapper_def example_disk_def read_text_def)
  have cf: "chunking_function example_chunking_scrapper = Some whitespace_split"
    "chunking_function example_scrapper = None"
    by (simp_all add: example_scrapper_def example_chunking_scrapper_def)
  from get_chunks_from_file_result [OF valid(1) valid(2) rd(1)]
       get_chunks_from_file_result [OF valid(1) valid(3) rd(2)] cf
  show ?thesis by (simp add: strip_examples whitespace_split_examples)
qed

section \<open>Building the chunks\<close>

text \<open>The loops read the files at the indices they are given.\<close>

lemma nth_readable:
  assumes "map (read_text fs) fl = map Inr texts" and "i < length fl"
  shows "read_text fs (fl ! i) = Inr (texts ! i)"
proof -
  from map_eq_imp_length_eq [OF assms(1)] have len: "length texts = length fl" by simp
  from assms(2) have "read_text fs (fl ! i) = map (read_text fs) fl ! i" by simp
  also have "\<dots> = map Inr texts ! i" by (simp only: assms(1))
  also from assms(2) len have "\<dots> = Inr (texts ! i)" by simp
  finally show ?thesis .
qed

lemma get_file_content_readable:
  assumes "map (read_text fs) (files_list s) = map Inr texts"
    and "0 \<le> idx" and "idx < int (length (files_list s))"
  shows "get_file_content fs s idx = Inr (strip (texts ! nat idx))"
proof -
  from assms(2,3) have "nat idx < length (files_list s)" by simp
  from nth_readable [OF assms(1) this] assms(2,3) show ?thesis
    by (simp add: get_file_content_valid)
qed

lemma merging_loop_readable:
  assumes "map (read_text fs) (files_list s) = map Inr texts"
    and "\<forall>idx \<in> set idxs. 0 \<le> idx \<and> idx < int (length (files_list s))"
  shows "merging_loop fs s idxs merged =
           Inr (merged @ concat (map (\<lambda>idx. strip (texts ! nat idx) @ [CHR 0x0A, CHR 0x0A]) idxs))"
  using assms(2)
proof (induction idxs arbitrary: merged)
  case Nil
  show ?case by simp
next
  case (Cons idx rest)
  then have "get_file_content fs s idx = Inr (strip (texts ! nat idx))"
    by (simp add: get_file_content_readable [OF assms(1)])
  with Cons show ?case by simp
qed

lemma range_len_valid: "\<forall>idx \<in> set (range_len xs). 0 \<le> idx \<and> idx < int (length xs)"
  by (auto simp: range_len_def)

lemma map_nth_range_len:
  assumes "length texts = length xs"
  shows "map (\<lambda>idx. g (texts ! nat idx)) (range_len xs) = map g texts"
proof -
  have "map (\<lambda>idx. g (texts ! nat idx)) (range_len xs) =
          map g (map ((!) texts) [0..<length texts])"
    by (simp add: range_len_def comp_def assms)
  then show ?thesis by (simp only: map_nth)
qed

text \<open>
  Claim C1. Without a chunking function, \<^verbatim>\<open>create_chunk\<close> over files that can all be
  read leaves exactly one chunk: the stripped contents in \<^verbatim>\<open>files_list\<close> order, each
  followed by a blank line (two line feeds), the last one included. For an empty
  \<^verbatim>\<open>files_list\<close> that single chunk is the empty string.
\<close>

theorem create_chunk_without_chunking_function:
  assumes "chunking_function s = None"
    and "map (read_text fs) (files_list s) = map Inr texts"
  shows "create_chunk fs s =
           (Inr (), s\<lparr>chunks := [concat (map (\<lambda>t. strip t @ [CHR 0x0A, CHR 0x0A]) texts)]\<rparr>)"
proof -
  let ?s0 = "s\<lparr>chunks := []\<rparr>"
  from assms(2) have rd: "map (read_text fs) (files_list ?s0) = map Inr texts" by simp
  from map_eq_imp_length_eq [OF rd] have len: "length texts = length (files_list ?s0)" by simp
  have "merging_loop fs ?s0 (range_len (files_list ?s0)) [] =
          Inr (concat (map (\<lambda>idx. strip (texts ! nat idx) @ [CHR 0x0A, CHR 0x0A])
                 (range_len (files_list ?s0))))"
    using merging_loop_readable [OF rd range_len_valid, of "[]"] by simp
  also have "map (\<lambda>idx. strip (texts ! nat idx) @ [CHR 0x0A, CHR 0x0A]) (range_len (files_list ?s0))
             = map (\<lambda>t. strip t @ [CHR 0x0A, CHR 0x0A]) texts"
    by (rule map_nth_range_len [OF len])
  finally show ?thesis using assms(1) by (simp add: create_chunk_def)
qed

lemma get_file_content_chunks_update [simp]:
  "get_file_content fs (s\<lparr>chunks := c\<rparr>) idx = get_file_content fs s idx"
  by (simp add: get_file_content_def check_idx_def)

lemma get_chunks_from_file_eq:
  "get_chunks_from_file fs s idx =
     (case get_file_content fs s idx of
        Inl e \<Rightarrow> Inl e
      | Inr file_content \<Rightarrow>
          (case chunking_function s of
             Some f \<Rightarrow> Inr (Some (f file_content))
           | None \<Rightarrow> Inr None))"
  by (simp add: get_chunks_from_file_def get_file_content_def split: sum.splits)

lemma chunking_loop_ok:
  assumes "chunking_function s = Some f"
    and "\<forall>idx \<in> set idxs. get_file_content fs s idx = Inr (c idx)"
  shows "chunking_loop fs idxs s =
           (Inr (), s\<lparr>chunks := chunks s @ concat (map (\<lambda>idx. f (c idx)) idxs)\<rparr>)"
  using assms
proof (induction idxs arbitrary: s)
  case Nil
  show ?case by simp
next
  case (Cons idx rest)
  let ?s1 = "s\<lparr>chunks := chunks s @ f (c idx)\<rparr>"
  from Cons.prems have step: "get_chunks_from_file fs s idx = Inr (Some (f (c idx)))"
    by (simp add: get_chunks_from_file_eq)
  from Cons.prems have "chunking_function ?s1 = Some f"
    and "\<forall>i \<in> set rest. get_file_content fs ?s1 i = Inr (c i)"
    by simp_all
  then have "chunking_loop fs rest ?s1 =
               (Inr (), ?s1\<lparr>chunks := chunks ?s1 @ concat (map (\<lambda>idx. f (c idx)) rest)\<rparr>)"
    by (rule Cons.IH)
  with step show ?case by simp
qed

lemma chunking_loop_fails:
  assumes "chunking_function s = Some f"
    and "\<forall>idx \<in> set before. get_file_content fs s idx = Inr (c idx)"
    and "get_file_content fs s k = Inl e"
  shows "chunking_loop fs (before @ k # after) s =
           (Inl e, s\<lparr>chunks := chunks s @ concat (map (\<lambda>idx. f (c idx)) before)\<rparr>)"
  using assms
proof (induction before arbitrary: s)
  case Nil
  then show ?case by (simp add: get_chunks_from_file_eq)
next
  case (Cons idx rest)
  let ?s1 = "s\<lparr>chunks := chunks s @ f (c idx)\<rparr>"
  from Cons.prems have step: "get_chunks_from_file fs s idx = Inr (Some (f (c idx)))"
    by (simp add: get_chunks_from_file_eq)
  from Cons.prems have "chunking_function ?s1 = Some f"
    and "\<forall>i \<in> set rest. get_file_content fs ?s1 i = Inr (c i)"
    and "get_file_content fs ?s1 k = Inl e"
    by simp_all
  then have "chunking_loop fs (rest @ k # after) ?s1 =
               (Inl e, ?s1\<lparr>chunks := chunks ?s1 @ concat (map (\<lambda>idx. f (c idx)) rest)\<rparr>)"
    by (rule Cons.IH)
  with step show ?case by simp
qed

lemma merging_loop_fails:
  assumes "\<forall>idx \<in> set before. get_file_content fs s idx = Inr (c idx)"
    and "get_file_content fs s k = Inl e"
  shows "merging_loop fs s (before @ k # after) merged = Inl e"
  using assms by (induction before arbitrary: merged) simp_all

lemma contents_readable:
  assumes "map (read_text fs) (files_list s) = map Inr texts"
  shows "\<forall>idx \<in> set (range_len (files_list s)).
           get_file_content fs s idx = Inr (strip (texts ! nat idx))"
  using get_file_content_readable [OF assms] range_len_valid by blast

text \<open>
  Claim C2. With a chunking function \<open>f\<close>, \<^verbatim>\<open>create_chunk\<close> over files that can all be
  read leaves as chunks the concatenation, in \<^verbatim>\<open>files_list\<close> order, of \<open>f\<close> applied to
  each file's stripped content, every fragment list in the order \<open>f\<close> returned it; a
  file for which \<open>f\<close> returns the empty list adds nothing.
\<close>

theorem create_chunk_with_chunking_function:
  assumes "chunking_function s = Some f"
    and "map (read_text fs) (files_list s) = map Inr texts"
  shows "create_chunk fs s = (Inr (), s\<lparr>chunks := concat (map (\<lambda>t. f (strip t)) texts)\<rparr>)"
proof -
  let ?s0 = "s\<lparr>chunks := []\<rparr>"
  from assms(1) have cf: "chunking_function ?s0 = Some f" by simp
  from assms(2) have rd: "map (read_text fs) (files_list ?s0) = map Inr texts" by simp
  from map_eq_imp_length_eq [OF rd] have len: "length texts = length (files_list ?s0)" by simp
  have "chunking_loop fs (range_len (files_list ?s0)) ?s0 =
          (Inr (), ?s0\<lparr>chunks := chunks ?s0 @
             concat (map (\<lambda>idx. f (strip (texts ! nat idx))) (range_len (files_list ?s0)))\<rparr>)"
    by (rule chunking_loop_ok [OF cf contents_readable [OF rd]])
  also have "map (\<lambda>idx. f (strip (texts ! nat idx))) (range_len (files_list ?s0)) =
             map (\<lambda>t. f (strip t)) texts"
    by (rule map_nth_range_len [OF len])
  finally show ?thesis using assms(1) by (simp add: create_chunk_def)
qed

theorem create_chunk_with_chunking_function_witness:
  "create_chunk example_disk example_chunking_scrapper =
     (Inr (), example_chunking_scrapper\<lparr>chunks := [''x'', ''y'', ''z'']\<rparr>)"
proof -
  have cf: "chunking_function example_chunking_scrapper = Some whitespace_split"
    by (simp add: example_chunking_scrapper_def)
  have rd: "map (read_text example_disk) (files_list example_chunking_scrapper) =
              map Inr [''x y'', ''z'' @ [CHR 0x0A]]"
    by (simp add: example_chunking_scrapper_def example_disk_def read_text_def)
  from create_chunk_with_chunking_function [OF cf rd]
  show ?thesis by (simp add: strip_examples whitespace_split_examples)
qed

theorem create_chunk_without_chunking_function_witness:
  "create_chunk example_disk example_scrapper =
     (Inr (), example_scrapper\<lparr>chunks := [''A'' @ [CHR 0x0A, CHR 0x0A] @ ''B'' @ [CHR 0x0A, CHR 0x0A]]\<rparr>)
   \<and> create_chunk example_disk (example_scrapper\<lparr>files_list := []\<rparr>) =
     (Inr (), example_scrapper\<lparr>files_list := [], chunks := [[]]\<rparr>)"
proof -
  have cf: "chunking_function example_scrapper = None"
    "chunking_function (example_scrapper\<lparr>files_list := []\<rparr>) = None"
    by (simp_all add: example_scrapper_def)
  have rd: "map (read_text example_disk) (files_list example_scrapper) =
              map Inr ['' A'' @ [CHR 0x0A], ''B'']"
    by (simp add: example_scrapper_def example_disk_def read_text_def)
  have rd0: "map (read_text example_disk) (files_list (example_scrapper\<lparr>files_list := []\<rparr>)) =
              map Inr []"
    by simp
  from create_chunk_without_chunking_function [OF cf(1) rd]
       create_chunk_without_chunking_function [OF cf(2) rd0]
  show ?thesis by (simp add: strip_examples)
qed

lemma range_len_split:
  assumes "k < length xs"
  shows "range_len xs = map int [0..<k] @ int k # map int [Suc k..<length xs]"
proof -
  from assms have "[0..<length xs] = [0..<k] @ k # [Suc k..<length xs]"
    by (metis less_imp_le_nat upt_add_eq_append upt_conv_Cons le_add_diff_inverse zero_le)
  then show ?thesis by (simp add: range_len_def)
qed

lemma contents_readable_before:
  assumes "map (read_text fs) (take k (files_list s)) = map Inr texts" and "k < length (files_list s)"
  shows "\<forall>idx \<in> set (map int [0..<k]).
           get_file_content fs s idx = Inr (strip (texts ! nat idx))"
proof
  fix idx assume "idx \<in> set (map int [0..<k])"
  then have idx: "0 \<le> idx" "nat idx < k" by auto
  with assms(2) have valid: "idx < int (length (files_list s))" by simp
  from idx assms(2) have "nat idx < length (take k (files_list s))" by simp
  from nth_readable [OF assms(1) this] idx
  have "read_text fs (files_list s ! nat idx) = Inr (texts ! nat idx)" by simp
  with idx(1) valid show "get_file_content fs s idx = Inr (strip (texts ! nat idx))"
    by (simp add: get_file_content_valid)
qed

text \<open>
  Claim C6, as amended. When the file at position \<open>k\<close> is the first one that cannot be
  read, \<^verbatim>\<open>create_chunk\<close> stops there and the read error reaches the caller. The chunks
  the object held before are gone and are not restored: with a chunking function the
  object is left with the fragments of the \<open>k\<close> files read before the failing one, and
  without one it is left with no chunk at all.
\<close>

theorem create_chunk_read_failure:
  assumes "k < length (files_list s)"
    and "map (read_text fs) (take k (files_list s)) = map Inr texts"
    and "read_text fs (files_list s ! k) = Inl e"
  shows "create_chunk fs s =
           (Inl (ReadError e),
            s\<lparr>chunks := (case chunking_function s of
                           Some f \<Rightarrow> concat (map (\<lambda>t. f (strip t)) texts)
                         | None \<Rightarrow> [])\<rparr>)"
proof -
  let ?s0 = "s\<lparr>chunks := []\<rparr>"
  let ?before = "map int [0..<k]"
  let ?after = "map int [Suc k..<length (files_list s)]"
  have split: "range_len (files_list ?s0) = ?before @ int k # ?after"
    using range_len_split [OF assms(1)] by simp
  from map_eq_imp_length_eq [OF assms(2)] assms(1) have len: "length texts = k" by simp
  have ok: "\<forall>idx \<in> set ?before. get_file_content fs ?s0 idx = Inr (strip (texts ! nat idx))"
    using contents_readable_before [OF assms(2) assms(1)] by simp
  from assms(1,3) have bad: "get_file_content fs ?s0 (int k) = Inl (ReadError e)"
    by (simp add: get_file_content_valid)
  have before: "map (\<lambda>idx. g (texts ! nat idx)) ?before = map g texts" for g :: "string \<Rightarrow> 'b"
    using map_nth_range_len [of texts texts g] len by (simp add: range_len_def)
  show ?thesis
  proof (cases "chunking_function s")
    case None
    with merging_loop_fails [OF ok bad, of ?after "[]"] split show ?thesis
      by (simp add: create_chunk_def)
  next
    case (Some f)
    then have cf: "chunking_function ?s0 = Some f" by simp
    from chunking_loop_fails [OF cf ok bad, of ?after] split Some before [of "\<lambda>t. f (strip t)"]
    show ?thesis by (simp add: create_chunk_def)
  qed
qed

text \<open>
  Claim C6 as the specification states it (a failed rebuild leaves no partial result)
  does not hold: with the files \<^verbatim>\<open>g1\<close>, \<^verbatim>\<open>gone\<close>, \<^verbatim>\<open>g2\<close>, the second of which is
  missing, the rebuild raises and leaves the fragments of \<^verbatim>\<open>g1\<close> alone in place of the
  chunks held before.
\<close>

theorem create_chunk_partial_counterexample:
  "fst (create_chunk example_disk example_failing_scrapper) = Inl (ReadError FileNotFoundError)
   \<and> chunks example_failing_scrapper = [''old'']
   \<and> chunks (snd (create_chunk example_disk example_failing_scrapper)) = [''x'', ''y'']"
  by (simp add: create_chunk_def example_failing_scrapper_def example_disk_def read_text_def range_len_def
        get_chunks_from_file_eq get_file_content_def check_idx_def upt_rec
        strip_examples whitespace_split_examples)

theorem create_chunk_read_failure_witness:
  "create_chunk example_disk example_failing_scrapper =
     (Inl (ReadError FileNotFoundError), example_failing_scrapper\<lparr>chunks := [''x'', ''y'']\<rparr>)
   \<and> create_chunk example_disk (example_scrapper\<lparr>files_list := [''f1'', ''gone'']\<rparr>) =
     (Inl (ReadError FileNotFoundError), example_scrapper\<lparr>files_list := [''f1'', ''gone''], chunks := []\<rparr>)"
proof -
  let ?s = "example_scrapper\<lparr>files_list := [''f1'', ''gone'']\<rparr>"
  have k: "1 < length (files_list example_failing_scrapper)" "1 < length (files_list ?s)"
    by (simp_all add: example_failing_scrapper_def)
  have rd: "map (read_text example_disk) (take 1 (files_list example_failing_scrapper)) = map Inr [''x y'']"
    "map (read_text example_disk) (take 1 (files_list ?s)) = map Inr ['' A'' @ [CHR 0x0A]]"
    by (simp_all add: example_failing_scrapper_def example_disk_def read_text_def)
  have bad: "read_text example_disk (files_list example_failing_scrapper ! 1) = Inl FileNotFoundError"
    "read_text example_disk (files_list ?s ! 1) = Inl FileNotFoundError"
    by (simp_all add: example_failing_scrapper_def example_disk_def read_text_def)
  have cf: "chunking_function example_failing_scrapper = Some whitespace_split"
    "chunking_function ?s = None"
    by (simp_all add: example_failing_scrapper_def example_scrapper_def)
  from create_chunk_read_failure [OF k(1) rd(1) bad(1)]
       create_chunk_read_failure [OF k(2) rd(2) bad(2)] cf
  show ?thesis by (simp add: strip_examples whitespace_split_examples)
qed

section \<open>Locating files\<close>

lemma files_loop_no_filter:
  "files_loop path None names acc = acc @ map (os_path_join path) names"
  by (induction names arbitrary: acc) simp_all

lemma files_loop_filter:
  "files_loop path (Some flt) names acc =
     acc @ filter (\<lambda>f. snd (os_path_splitext f) \<in> set flt) (map (os_path_join path) names)"
  by (induction names arbitrary: acc) (simp_all add: Let_def)

lemma walk_loop_no_filter:
  "walk_loop None entries acc =
     acc @ concat (map (\<lambda>(path, subdirs, files). map (os_path_join path) files) entries)"
  by (induction entries arbitrary: acc) (auto simp: files_loop_no_filter)

lemma walk_loop_filter:
  "walk_loop (Some flt) entries acc =
     acc @ filter (\<lambda>f. snd (os_path_splitext f) \<in> set flt)
             (concat (map (\<lambda>(path, subdirs, files). map (os_path_join path) files) entries))"
  by (induction entries arbitrary: acc) (auto simp: files_loop_filter)

lemma get_all_files_no_filter:
  "get_all_files_from_path fs p None =
     concat (map (\<lambda>(path, subdirs, files). map (os_path_join path) files)
               (os_walk p (tree_at fs p)))"
  by (simp add: get_all_files_from_path_def walk_loop_no_filter)

lemma get_all_files_filter:
  "get_all_files_from_path fs p (Some flt) =
     filter (\<lambda>f. snd (os_path_splitext f) \<in> set flt) (get_all_files_from_path fs p None)"
  by (simp add: get_all_files_from_path_def walk_loop_no_filter walk_loop_filter)

lemma ignore_loop_eq:
  "ignore_loop ign fl s =
     s\<lparr>files_list := files_list s @
          filter (\<lambda>f. \<not> list_ex (\<lambda>x. str_contains x (os_path_dirname f)) ign) fl\<rparr>"
  by (induction fl arbitrary: s) (simp_all add: Let_def)

lemma update_files_list_eq:
  "update_files_list fs s p flt ign =
     s\<lparr>files_list :=
         (case ign of
            Some l \<Rightarrow> filter (\<lambda>f. \<not> list_ex (\<lambda>x. str_contains x (os_path_dirname f)) l)
                        (get_all_files_from_path fs p flt)
          | None \<Rightarrow> get_all_files_from_path fs p flt)\<rparr>"
  by (simp add: update_files_list_def ignore_loop_eq split: option.splits)

lemma example_walk:
  "os_walk ''root'' (tree_at example_fs ''root'') =
     [(''root'', [''data'', ''metadata''], [''a.md'', ''b.txt'', ''c.MD'', ''.md'']),
      (''root/data'', [], [''x.txt'']), (''root/metadata'', [], [''y.txt''])]"
  by (simp add: example_fs_def example_tree_def os_path_join_def endswith_def)

lemma example_all_files:
  "get_all_files_from_path example_fs ''root'' None =
     [''root/a.md'', ''root/b.txt'', ''root/c.MD'', ''root/.md'',
      ''root/data/x.txt'', ''root/metadata/y.txt'']"
  by (simp add: get_all_files_no_filter example_walk os_path_join_def endswith_def)

text \<open>
  Claim C10. An extension filter that is given but empty matches no extension: under any
  root, \<^verbatim>\<open>get_all_files_from_path\<close> then returns no file and \<^verbatim>\<open>update_files_list\<close>
  leaves an empty \<^verbatim>\<open>files_list\<close>, whereas an absent filter (\<^verbatim>\<open>None\<close>) returns every
  file that \<^verbatim>\<open>os.walk\<close> lists.
\<close>

theorem empty_extension_filter_matches_nothing:
  "get_all_files_from_path fs p (Some []) = []
   \<and> files_list (update_files_list fs s p (Some []) ign) = []
   \<and> get_all_files_from_path fs p None =
       concat (map (\<lambda>(path, subdirs, files). map (os_path_join path) files)
                 (os_walk p (tree_at fs p)))"
  by (simp add: get_all_files_filter update_files_list_eq get_all_files_no_filter
        split: option.splits)

theorem empty_extension_filter_matches_nothing_witness:
  "get_all_files_from_path example_fs ''root'' (Some []) = []
   \<and> files_list (update_files_list example_fs example_scrapper ''root'' (Some []) None) = []
   \<and> get_all_files_from_path example_fs ''root'' None =
       [''root/a.md'', ''root/b.txt'', ''root/c.MD'', ''root/.md'',
        ''root/data/x.txt'', ''root/metadata/y.txt'']"
  using empty_extension_filter_matches_nothing [of example_fs "''root''" example_scrapper None]
  by (simp add: example_walk os_path_join_def endswith_def)

section \<open>Ignored paths\<close>

lemma startswith_iff: "startswith s p \<longleftrightarrow> (\<exists>suf. s = p @ suf)"
  by (induction s p rule: startswith.induct) auto

lemma str_contains_iff: "str_contains sub s \<longleftrightarrow> (\<exists>pre suf. s = pre @ sub @ suf)"
proof (induction s)
  case Nil
  show ?case by auto
next
  case (Cons c cs)
  show ?case
  proof
    assume "str_contains sub (c # cs)"
    then consider "startswith (c # cs) sub" | "str_contains sub cs" by auto
    then show "\<exists>pre suf. c # cs = pre @ sub @ suf"
    proof cases
      case 1
      then obtain suf where "c # cs = [] @ sub @ suf" by (auto simp: startswith_iff)
      then show ?thesis by blast
    next
      case 2
      with Cons.IH obtain pre suf where "cs = pre @ sub @ suf" by blast
      then have "c # cs = (c # pre) @ sub @ suf" by simp
      then show ?thesis by blast
    qed
  next
    assume "\<exists>pre suf. c # cs = pre @ sub @ suf"
    then obtain pre suf where eq: "c # cs = pre @ sub @ suf" by blast
    show "str_contains sub (c # cs)"
    proof (cases pre)
      case Nil
      with eq have "startswith (c # cs) sub" by (auto simp: startswith_iff)
      then show ?thesis by simp
    next
      case (Cons d pre')
      with eq have "cs = pre' @ sub @ suf" by simp
      with Cons.IH have "str_contains sub cs" by blast
      then show ?thesis by simp
    qed
  qed
qed

text \<open>
  Claim C4. When \<^verbatim>\<open>paths_to_ignore_list\<close> is given, \<^verbatim>\<open>files_list\<close> holds the located
  files, in their order, but for those whose directory part (\<^verbatim>\<open>os.path.dirname\<close>)
  contains a member of the list as a substring: plain containment of one string in
  another, not a match of path segments.
\<close>

theorem ignored_paths_drop_by_substring:
  "files_list (update_files_list fs s p flt (Some ign)) =
     filter (\<lambda>f. \<not> (\<exists>x \<in> set ign. \<exists>pre suf. os_path_dirname f = pre @ x @ suf))
       (get_all_files_from_path fs p flt)"
  by (simp add: update_files_list_eq list_ex_iff str_contains_iff)

lemma example_dirnames:
  "os_path_dirname ''root/a.md'' = ''root''" "os_path_dirname ''root/b.txt'' = ''root''"
  "os_path_dirname ''root/c.MD'' = ''root''" "os_path_dirname ''root/.md'' = ''root''"
  "os_path_dirname ''root/data/x.txt'' = ''root/data''"
  "os_path_dirname ''root/metadata/y.txt'' = ''root/metadata''"
  by (simp_all add: os_path_dirname_def rstrip_char_def Let_def)

theorem ignored_paths_drop_by_substring_witness:
  "files_list (update_files_list example_fs example_scrapper ''root'' None (Some [''data''])) =
     [''root/a.md'', ''root/b.txt'', ''root/c.MD'', ''root/.md'']
   \<and> ''root/data/x.txt'' \<in> set (get_all_files_from_path example_fs ''root'' None)
   \<and> ''root/metadata/y.txt'' \<in> set (get_all_files_from_path example_fs ''root'' None)
   \<and> os_path_dirname ''root/metadata/y.txt'' = ''root/meta'' @ ''data'' @ ''''"
proof -
  have data: "\<exists>pre suf. ''root/data'' = pre @ ''data'' @ suf"
    using str_contains_iff [of "''data''" "''root/data''"] by simp
  have metadata: "\<exists>pre suf. ''root/metadata'' = pre @ ''data'' @ suf"
    using str_contains_iff [of "''data''" "''root/metadata''"] by simp
  have root: "\<not> (\<exists>pre suf. ''root'' = pre @ ''data'' @ suf)"
    using str_contains_iff [of "''data''" "''root''"] by simp
  from ignored_paths_drop_by_substring
         [of example_fs example_scrapper "''root''" None "[''data'']"] data metadata root
  show ?thesis by (simp add: example_all_files example_dirnames)
qed

section \<open>The extension filter\<close>

lemma rfind_lower: "- 1 \<le> rfind xs c"
  by (induction xs) (simp_all add: Let_def)

lemma rfind_upper: "rfind xs c < int (length xs)"
  by (induction xs) (simp_all add: Let_def)

lemma rfind_found_iff: "0 \<le> rfind xs c \<longleftrightarrow> c \<in> set xs"
  by (induction xs) (auto simp: Let_def)

lemma rfind_missing: "c \<notin> set xs \<Longrightarrow> rfind xs c = - 1"
  using rfind_found_iff [of xs c] rfind_lower [of xs c] by simp

lemma rfind_append:
  "rfind (xs @ ys) c = (if c \<in> set ys then int (length xs) + rfind ys c else rfind xs c)"
proof (induction xs)
  case Nil
  then show ?case by (simp add: rfind_missing)
next
  case (Cons x xs)
  show ?case
  proof (cases "c \<in> set ys")
    case True
    then have "0 \<le> rfind ys c" by (simp add: rfind_found_iff)
    with True Cons show ?thesis by (simp add: Let_def)
  next
    case False
    with Cons show ?thesis by (simp add: Let_def)
  qed
qed

lemma drop_rfind: "c \<in> set xs \<Longrightarrow> drop (nat (rfind xs c)) xs = from_last c xs"
proof (induction xs)
  case Nil
  then show ?case by simp
next
  case (Cons x xs)
  show ?case
  proof (cases "c \<in> set xs")
    case True
    then have found: "0 \<le> rfind xs c" by (simp add: rfind_found_iff)
    then have "nat (rfind xs c + 1) = Suc (nat (rfind xs c))" by simp
    with True found Cons.IH show ?thesis by (simp add: Let_def)
  next
    case False
    with Cons.prems have "x = c" by simp
    with False show ?thesis by (simp add: Let_def rfind_missing)
  qed
qed

lemma skip_leading_dots_eq:
  "skip_leading_dots p i j =
     (if \<exists>k. i \<le> k \<and> k < j \<and> take 1 (drop (nat k) p) \<noteq> ''.''
      then (take (nat j) p, drop (nat j) p) else (p, []))"
proof (induction p i j rule: skip_leading_dots.induct)
  case (1 p i j)
  show ?case
  proof (cases "i < j")
    case False
    then show ?thesis by (subst skip_leading_dots.simps) auto
  next
    case True
    show ?thesis
    proof (cases "take 1 (drop (nat i) p) \<noteq> ''.''")
      case nondot: True
      with True have "\<exists>k. i \<le> k \<and> k < j \<and> take 1 (drop (nat k) p) \<noteq> ''.''"
        by (intro exI [of _ i]) simp
      with True nondot show ?thesis by (subst skip_leading_dots.simps) simp
    next
      case dot: False
      have "(\<exists>k. i + 1 \<le> k \<and> k < j \<and> take 1 (drop (nat k) p) \<noteq> ''.'') \<longleftrightarrow>
            (\<exists>k. i \<le> k \<and> k < j \<and> take 1 (drop (nat k) p) \<noteq> ''.'')"
      proof
        assume "\<exists>k. i + 1 \<le> k \<and> k < j \<and> take 1 (drop (nat k) p) \<noteq> ''.''"
        then obtain k where "i + 1 \<le> k" "k < j" "take 1 (drop (nat k) p) \<noteq> ''.''" by blast
        then have "i \<le> k \<and> k < j \<and> take 1 (drop (nat k) p) \<noteq> ''.''" by simp
        then show "\<exists>k. i \<le> k \<and> k < j \<and> take 1 (drop (nat k) p) \<noteq> ''.''" ..
      next
        assume "\<exists>k. i \<le> k \<and> k < j \<and> take 1 (drop (nat k) p) \<noteq> ''.''"
        then obtain k where k: "i \<le> k" "k < j" "take 1 (drop (nat k) p) \<noteq> ''.''" by blast
        with dot have "k \<noteq> i" by auto
        with k have "i + 1 \<le> k \<and> k < j \<and> take 1 (drop (nat k) p) \<noteq> ''.''" by simp
        then show "\<exists>k. i + 1 \<le> k \<and> k < j \<and> take 1 (drop (nat k) p) \<noteq> ''.''" ..
      qed
      with True dot "1.IH" show ?thesis by (subst skip_leading_dots.simps) simp
    qed
  qed
qed

lemma take1_drop: "n < length p \<Longrightarrow> take 1 (drop n p) = [p ! n]"
  using Cons_nth_drop_Suc [of n p] by (metis One_nat_def take0 take_Suc_Cons)

lemma take_Suc0_drop: "n < length p \<Longrightarrow> take (Suc 0) (drop n p) = [p ! n]"
  using take1_drop [of n p] by simp

lemma leading_dots_iff:
  assumes "CHR ''.'' \<in> set name"
  shows "(\<exists>m < nat (rfind name CHR ''.''). name ! m \<noteq> CHR ''.'') \<longleftrightarrow>
         CHR ''.'' \<in> set (dropWhile (\<lambda>c. c = CHR ''.'') name)"
proof -
  let ?dots = "takeWhile (\<lambda>c. c = CHR ''.'') name"
  let ?stem = "dropWhile (\<lambda>c. c = CHR ''.'') name"
  have split: "rfind name CHR ''.'' =
      (if CHR ''.'' \<in> set ?stem then int (length ?dots) + rfind ?stem CHR ''.''
       else rfind ?dots CHR ''.'')"
    using rfind_append [of ?dots ?stem "CHR ''.''"] by simp
  show ?thesis
  proof (cases "CHR ''.'' \<in> set ?stem")
    case True
    then obtain r rs where stem: "?stem = r # rs" by (cases ?stem) auto
    have r: "r \<noteq> CHR ''.''"
      using hd_dropWhile [of "\<lambda>c. c = CHR ''.''" name] stem by simp
    with True stem have "CHR ''.'' \<in> set rs" by auto
    then have "0 \<le> rfind rs CHR ''.''" by (simp add: rfind_found_iff)
    then have "1 \<le> rfind (r # rs) CHR ''.''" by (simp add: Let_def)
    with stem have "1 \<le> rfind ?stem CHR ''.''" by simp
    with split True have before: "length ?dots < nat (rfind name CHR ''.'')" by simp
    have "drop (length ?dots) name = r # rs"
      using dropWhile_eq_drop [of "\<lambda>c. c = CHR ''.''" name] stem by simp
    then have "length ?dots < length name"
      by (cases "length ?dots < length name") simp_all
    then have "name ! length ?dots \<noteq> CHR ''.''"
      by (rule nth_length_takeWhile)
    with before True show ?thesis by blast
  next
    case False
    with split have "rfind name CHR ''.'' = rfind ?dots CHR ''.''" by simp
    with rfind_upper [of ?dots "CHR ''.''"] have bound: "nat (rfind name CHR ''.'') \<le> length ?dots"
      by simp
    have "name ! m = CHR ''.''" if "m < nat (rfind name CHR ''.'')" for m
    proof -
      from that bound have m: "m < length ?dots" by simp
      then have "?dots ! m = name ! m" by (rule takeWhile_nth)
      moreover from m have "?dots ! m \<in> set ?dots" by (rule nth_mem)
      then have "?dots ! m = CHR ''.''" by (rule set_takeWhileD [THEN conjunct2])
      ultimately show ?thesis by simp
    qed
    with False show ?thesis by blast
  qed
qed

lemma splitext_of_name:
  assumes "CHR ''/'' \<notin> set name" and "pre = [] \<or> last pre = CHR ''/''"
  shows "snd (os_path_splitext (pre @ name)) = name_extension name"
proof -
  have sep: "rfind (pre @ name) CHR ''/'' = int (length pre) - 1"
  proof (cases "pre = []")
    case True
    with assms(1) show ?thesis by (simp add: rfind_missing)
  next
    case False
    with assms(2) have "pre = butlast pre @ [CHR ''/'']"
      by (metis append_butlast_last_id)
    then have "rfind pre CHR ''/'' = int (length (butlast pre))"
      using rfind_append [of "butlast pre" "[CHR ''/'']" "CHR ''/''"] by simp
    moreover from False have "int (length (butlast pre)) = int (length pre) - 1"
      by (cases pre rule: rev_cases) simp_all
    ultimately show ?thesis using assms(1) by (simp add: rfind_append)
  qed
  show ?thesis
  proof (cases "CHR ''.'' \<in> set name")
    case False
    have "rfind pre CHR ''.'' \<le> int (length pre) - 1"
    proof (cases "pre = []")
      case True
      then show ?thesis by simp
    next
      case nonempty: False
      with assms(2) have "pre = butlast pre @ [CHR ''/'']"
        by (metis append_butlast_last_id)
      then have "rfind pre CHR ''.'' = rfind (butlast pre) CHR ''.''"
        using rfind_append [of "butlast pre" "[CHR ''/'']" "CHR ''.''"] by simp
      moreover from nonempty have "int (length (butlast pre)) = int (length pre) - 1"
        by (cases pre rule: rev_cases) simp_all
      ultimately show ?thesis using rfind_upper [of "butlast pre" "CHR ''.''"] by simp
    qed
    with False sep have "snd (os_path_splitext (pre @ name)) = []"
      by (simp add: os_path_splitext_def rfind_append Let_def)
    moreover from False have "CHR ''.'' \<notin> set (dropWhile (\<lambda>c. c = CHR ''.'') name)"
      by (metis set_dropWhileD)
    ultimately show ?thesis by (simp add: name_extension_def)
  next
    case True
    let ?d = "rfind name CHR ''.''"
    from True have d: "0 \<le> ?d" by (simp add: rfind_found_iff)
    have dlen: "nat ?d < length name" using rfind_upper [of name "CHR ''.''"] d by simp
    from True have dot: "rfind (pre @ name) CHR ''.'' = int (length pre) + ?d"
      by (simp add: rfind_append)
    have scan: "(\<exists>k. int (length pre) \<le> k \<and> k < int (length pre) + ?d
                   \<and> take 1 (drop (nat k) (pre @ name)) \<noteq> ''.'') \<longleftrightarrow>
                (\<exists>m < nat ?d. name ! m \<noteq> CHR ''.'')"
    proof
      assume "\<exists>k. int (length pre) \<le> k \<and> k < int (length pre) + ?d
                   \<and> take 1 (drop (nat k) (pre @ name)) \<noteq> ''.''"
      then obtain k where k: "int (length pre) \<le> k" "k < int (length pre) + ?d"
        and nd: "take 1 (drop (nat k) (pre @ name)) \<noteq> ''.''" by blast
      let ?m = "nat k - length pre"
      from k d have m: "?m < nat ?d" by simp
      with dlen have "?m < length name" by simp
      moreover from k have "drop (nat k) (pre @ name) = drop ?m name" by simp
      ultimately have "take 1 (drop (nat k) (pre @ name)) = [name ! ?m]"
        by (simp add: take_Suc0_drop)
      with nd have "name ! ?m \<noteq> CHR ''.''" by simp
      with m show "\<exists>m < nat ?d. name ! m \<noteq> CHR ''.''" by blast
    next
      assume "\<exists>m < nat ?d. name ! m \<noteq> CHR ''.''"
      then obtain m where m: "m < nat ?d" and nd: "name ! m \<noteq> CHR ''.''" by blast
      let ?k = "int (length pre) + int m"
      from m dlen have "m < length name" by simp
      then have "take 1 (drop (nat ?k) (pre @ name)) = [name ! m]"
        by (simp add: take_Suc0_drop nat_add_distrib)
      with nd have "take 1 (drop (nat ?k) (pre @ name)) \<noteq> ''.''" by simp
      moreover from m d have "int (length pre) \<le> ?k \<and> ?k < int (length pre) + ?d" by simp
      ultimately show "\<exists>k. int (length pre) \<le> k \<and> k < int (length pre) + ?d
                   \<and> take 1 (drop (nat k) (pre @ name)) \<noteq> ''.''" by blast
    qed
    from d have "drop (nat (int (length pre) + ?d)) (pre @ name) = drop (nat ?d) name"
      by (simp add: nat_add_distrib)
    also from True have "\<dots> = from_last CHR ''.'' name" by (rule drop_rfind)
    finally have ext: "drop (nat (int (length pre) + ?d)) (pre @ name) = from_last CHR ''.'' name" .
    from d sep dot have "snd (os_path_splitext (pre @ name)) =
        snd (skip_leading_dots (pre @ name) (int (length pre)) (int (length pre) + ?d))"
      by (simp add: os_path_splitext_def Let_def)
    also have "\<dots> = (if \<exists>m < nat ?d. name ! m \<noteq> CHR ''.'' then from_last CHR ''.'' name else [])"
    proof (cases "\<exists>m < nat ?d. name ! m \<noteq> CHR ''.''")
      case found: True
      with scan have "skip_leading_dots (pre @ name) (int (length pre)) (int (length pre) + ?d) =
          (take (nat (int (length pre) + ?d)) (pre @ name),
           drop (nat (int (length pre) + ?d)) (pre @ name))"
        by (simp only: skip_leading_dots_eq if_True)
      with found ext show ?thesis by (simp only: snd_conv if_True)
    next
      case none: False
      with scan have "skip_leading_dots (pre @ name) (int (length pre)) (int (length pre) + ?d) =
          (pre @ name, [])"
        by (simp only: skip_leading_dots_eq if_False)
      with none show ?thesis by (simp only: snd_conv if_False)
    qed
    also have "\<dots> = name_extension name"
      unfolding name_extension_def leading_dots_iff [OF True] ..
    finally show ?thesis .
  qed
qed

lemma join_as_append:
  assumes "CHR ''/'' \<notin> set name"
  shows "\<exists>pre. os_path_join path name = pre @ name \<and> (pre = [] \<or> last pre = CHR ''/'')"
proof -
  from assms have nostart: "\<not> startswith name ''/''"
    by (cases name) auto
  show ?thesis
  proof (cases "path = []")
    case True
    then have "os_path_join path name = [] @ name" by (simp add: os_path_join_def)
    then show ?thesis by blast
  next
    case False
    show ?thesis
    proof (cases "endswith path ''/''")
      case True
      with False have "last path = CHR ''/''"
        by (cases path rule: rev_cases) (auto simp: endswith_def)
      moreover from True False nostart have "os_path_join path name = path @ name"
        by (simp add: os_path_join_def)
      ultimately show ?thesis by blast
    next
      case noslash: False
      with False nostart have "os_path_join path name = (path @ ''/'') @ name"
        by (simp add: os_path_join_def)
      moreover have "last (path @ ''/'') = CHR ''/''" by simp
      ultimately show ?thesis by blast
    qed
  qed
qed

lemma splitext_join:
  assumes "CHR ''/'' \<notin> set name"
  shows "snd (os_path_splitext (os_path_join path name)) = name_extension name"
proof -
  from join_as_append [OF assms, of path]
  obtain pre where "os_path_join path name = pre @ name" and "pre = [] \<or> last pre = CHR ''/''"
    by blast
  with splitext_of_name [OF assms, of pre] show ?thesis by simp
qed


lemma filter_joined_names:
  assumes "\<forall>name \<in> set names. CHR ''/'' \<notin> set name"
  shows "filter (\<lambda>f. snd (os_path_splitext f) \<in> set flt) (map (os_path_join path) names) =
         map (os_path_join path) (filter (\<lambda>name. name_extension name \<in> set flt) names)"
  using assms by (induction names) (simp_all add: splitext_join)

lemma filter_walk_entries:
  assumes "\<forall>(path, subdirs, files) \<in> set entries. \<forall>name \<in> set files. CHR ''/'' \<notin> set name"
  shows "filter (\<lambda>f. snd (os_path_splitext f) \<in> set flt)
           (concat (map (\<lambda>(path, subdirs, files). map (os_path_join path) files) entries)) =
         concat (map (\<lambda>(path, subdirs, files).
                   map (os_path_join path) (filter (\<lambda>name. name_extension name \<in> set flt) files))
                 entries)"
  using assms
proof (induction entries)
  case Nil
  show ?case by simp
next
  case (Cons entry rest)
  obtain path subdirs files where entry: "entry = (path, subdirs, files)"
    by (cases entry) auto
  with Cons.prems have "\<forall>name \<in> set files. CHR ''/'' \<notin> set name" by simp
  then have "filter (\<lambda>f. snd (os_path_splitext f) \<in> set flt) (map (os_path_join path) files) =
             map (os_path_join path) (filter (\<lambda>name. name_extension name \<in> set flt) files)"
    by (rule filter_joined_names)
  moreover from Cons have "filter (\<lambda>f. snd (os_path_splitext f) \<in> set flt)
           (concat (map (\<lambda>(path, subdirs, files). map (os_path_join path) files) rest)) =
         concat (map (\<lambda>(path, subdirs, files).
                   map (os_path_join path) (filter (\<lambda>name. name_extension name \<in> set flt) files))
                 rest)"
    by simp
  ultimately show ?case using entry by simp
qed

text \<open>
  Claim C5, as amended. With an extension filter, the located files are, directory by
  directory in \<^verbatim>\<open>os.walk\<close> order, the files whose extension is a member of the filter
  (compared as strings, so case matters), where the extension of a file name is
  \<open>name_extension\<close>: leading dots do not start an extension. Without a filter every
  file is located. File names contain no \<^verbatim>\<open>/\<close>.
\<close>

theorem extension_filter_keeps_matching_names:
  assumes "\<forall>(path, subdirs, files) \<in> set (os_walk p (tree_at fs p)).
             \<forall>name \<in> set files. CHR ''/'' \<notin> set name"
  shows "get_all_files_from_path fs p (Some flt) =
           concat (map (\<lambda>(path, subdirs, files).
                     map (os_path_join path) (filter (\<lambda>name. name_extension name \<in> set flt) files))
                   (os_walk p (tree_at fs p)))
       \<and> get_all_files_from_path fs p None =
           concat (map (\<lambda>(path, subdirs, files). map (os_path_join path) files)
                   (os_walk p (tree_at fs p)))"
  using filter_walk_entries [OF assms, of flt]
  by (simp add: get_all_files_filter get_all_files_no_filter)

lemma example_name_extensions:
  "name_extension ''a.md'' = ''.md''" "name_extension ''b.txt'' = ''.txt''"
  "name_extension ''c.MD'' = ''.MD''" "name_extension ''.md'' = []"
  "name_extension ''x.txt'' = ''.txt''" "name_extension ''y.txt'' = ''.txt''"
  by (simp_all add: name_extension_def)

theorem extension_filter_keeps_matching_names_witness:
  "get_all_files_from_path example_fs ''root'' (Some [''.md'']) = [''root/a.md'']
   \<and> get_all_files_from_path example_fs ''root'' None =
       [''root/a.md'', ''root/b.txt'', ''root/c.MD'', ''root/.md'',
        ''root/data/x.txt'', ''root/metadata/y.txt'']"
proof -
  have names: "\<forall>(path, subdirs, files) \<in> set (os_walk ''root'' (tree_at example_fs ''root'')).
                 \<forall>name \<in> set files. CHR ''/'' \<notin> set name"
    by (simp add: example_walk)
  from extension_filter_keeps_matching_names [OF names, of "[''.md'']"]
  show ?thesis
    by (simp add: example_walk example_name_extensions os_path_join_def endswith_def)
qed

lemma example_splitext:
  "snd (os_path_splitext ''root/.md'') = []" "snd (os_path_splitext ''root/a.md'') = ''.md''"
  "snd (os_path_splitext ''root/b.txt'') = ''.txt''" "snd (os_path_splitext ''root/c.MD'') = ''.MD''"
  "snd (os_path_splitext ''root/data/x.txt'') = ''.txt''"
  "snd (os_path_splitext ''root/metadata/y.txt'') = ''.txt''"
  by (simp_all add: os_path_splitext_def Let_def skip_leading_dots.simps)

text \<open>
  Claim C5 as the specification states it takes the extension of a name to start at its
  last dot in every case. For the file \<^verbatim>\<open>.md\<close> that extension is \<^verbatim>\<open>.md\<close>, a member of
  the filter \<^verbatim>\<open>['.md']\<close>, yet the file is not located with that filter.
\<close>

theorem extension_of_dotfile_counterexample:
  "spec_extension ''.md'' = ''.md''
   \<and> ''.md'' \<in> set [''.md'']
   \<and> ''root/.md'' \<in> set (get_all_files_from_path example_fs ''root'' None)
   \<and> ''root/.md'' \<notin> set (get_all_files_from_path example_fs ''root'' (Some [''.md'']))"
  by (simp add: spec_extension_def get_all_files_filter example_all_files example_splitext)

section \<open>Rescanning\<close>

lemma create_chunk_ignores_old_chunks:
  "create_chunk fs (s\<lparr>chunks := c\<rparr>) = create_chunk fs s"
  by (simp add: create_chunk_def)

lemma unchanged_frame: "\<exists>c. (s :: scrapper) = s\<lparr>chunks := c\<rparr>"
  by (rule exI [of _ "chunks s"]) simp

lemma chunking_loop_frame:
  "\<exists>c. snd (chunking_loop fs idxs s) = s\<lparr>chunks := c\<rparr>"
proof (induction idxs arbitrary: s)
  case Nil
  show ?case by (simp add: unchanged_frame)
next
  case (Cons idx rest)
  show ?case
  proof (cases "get_chunks_from_file fs s idx")
    case (Inl e)
    then show ?thesis by (simp add: unchanged_frame)
  next
    case (Inr r)
    show ?thesis
    proof (cases r)
      case None
      with Inr show ?thesis by (simp add: unchanged_frame)
    next
      case (Some file_chunks)
      from Cons.IH [of "s\<lparr>chunks := chunks s @ file_chunks\<rparr>"]
      obtain c where "snd (chunking_loop fs rest (s\<lparr>chunks := chunks s @ file_chunks\<rparr>)) =
                        s\<lparr>chunks := chunks s @ file_chunks\<rparr>\<lparr>chunks := c\<rparr>"
        by blast
      with Inr Some have "snd (chunking_loop fs (idx # rest) s) = s\<lparr>chunks := c\<rparr>" by simp
      then show ?thesis by blast
    qed
  qed
qed

lemma create_chunk_frame: "\<exists>c. snd (create_chunk fs s) = s\<lparr>chunks := c\<rparr>"
proof (cases "chunking_function s")
  case None
  then show ?thesis
    by (cases "merging_loop fs (s\<lparr>chunks := []\<rparr>) (range_len (files_list s)) []")
       (auto simp: create_chunk_def)
next
  case (Some f)
  from chunking_loop_frame [of fs "range_len (files_list s)" "s\<lparr>chunks := []\<rparr>"]
  obtain c where "snd (chunking_loop fs (range_len (files_list s)) (s\<lparr>chunks := []\<rparr>)) =
                    s\<lparr>chunks := []\<rparr>\<lparr>chunks := c\<rparr>"
    by blast
  with Some have "snd (create_chunk fs s) = s\<lparr>chunks := c\<rparr>"
    by (simp add: create_chunk_def)
  then show ?thesis by blast
qed

text \<open>
  Claim C8. Rescanning is idempotent: a second call of
  \<^verbatim>\<open>update_files_list_and_create_chunks\<close> with the same arguments on the same filesystem
  ends as the first one did and leaves the object, \<^verbatim>\<open>files_list\<close> and \<^verbatim>\<open>chunks\<close>
  included, as the first call left it.
\<close>

theorem rescan_idempotent:
  "update_files_list_and_create_chunks fs
     (snd (update_files_list_and_create_chunks fs s p flt ign)) p flt ign =
   update_files_list_and_create_chunks fs s p flt ign"
proof -
  let ?located = "files_list (update_files_list fs s p flt ign)"
  have first: "update_files_list fs s p flt ign = s\<lparr>files_list := ?located\<rparr>"
    by (simp add: update_files_list_eq)
  from create_chunk_frame [of fs "s\<lparr>files_list := ?located\<rparr>"]
  obtain c where after: "snd (create_chunk fs (s\<lparr>files_list := ?located\<rparr>)) =
                    s\<lparr>files_list := ?located\<rparr>\<lparr>chunks := c\<rparr>"
    by blast
  have "update_files_list fs (s\<lparr>files_list := ?located\<rparr>\<lparr>chunks := c\<rparr>) p flt ign =
          s\<lparr>files_list := ?located\<rparr>\<lparr>chunks := c\<rparr>"
    by (simp add: update_files_list_eq)
  with first after show ?thesis
    by (simp add: update_files_list_and_create_chunks_def create_chunk_ignores_old_chunks)
qed

theorem rescan_idempotent_witness:
  "update_files_list_and_create_chunks example_fs example_chunking_scrapper
     ''root'' (Some [''.txt'']) (Some [''meta'']) =
     (Inr (), example_chunking_scrapper
                \<lparr>files_list := [''root/b.txt'', ''root/data/x.txt''], chunks := [''B'', ''x'', ''y'']\<rparr>)
   \<and> update_files_list_and_create_chunks example_fs
       (example_chunking_scrapper
          \<lparr>files_list := [''root/b.txt'', ''root/data/x.txt''], chunks := [''B'', ''x'', ''y'']\<rparr>)
       ''root'' (Some [''.txt'']) (Some [''meta'']) =
     (Inr (), example_chunking_scrapper
                \<lparr>files_list := [''root/b.txt'', ''root/data/x.txt''], chunks := [''B'', ''x'', ''y'']\<rparr>)"
proof -
  let ?s = "example_chunking_scrapper\<lparr>files_list := [''root/b.txt'', ''root/data/x.txt'']\<rparr>"
  have located: "update_files_list example_fs example_chunking_scrapper
                   ''root'' (Some [''.txt'']) (Some [''meta'']) = ?s"
    by (simp add: update_files_list_eq get_all_files_filter example_all_files
          example_splitext example_dirnames)
  have "create_chunk example_fs ?s = (Inr (), ?s\<lparr>chunks := [''B'', ''x'', ''y'']\<rparr>)"
    by (simp add: create_chunk_def example_chunking_scrapper_def example_fs_def read_text_def
          range_len_def
          get_chunks_from_file_eq get_file_content_def check_idx_def upt_rec
          strip_examples whitespace_split_examples)
  with located have first:
    "update_files_list_and_create_chunks example_fs example_chunking_scrapper
       ''root'' (Some [''.txt'']) (Some [''meta'']) = (Inr (), ?s\<lparr>chunks := [''B'', ''x'', ''y'']\<rparr>)"
    by (simp add: update_files_list_and_create_chunks_def)
  with rescan_idempotent [of example_fs example_chunking_scrapper "''root''"
         "Some [''.txt'']" "Some [''meta'']"]
  show ?thesis by simp
qed

end
